theory Spec2Isabelle
  imports Main
begin

section \<open>Python values crossing the pipe\<close>

text \<open>
  The proxy of \<^verbatim>\<open>background_helper.py\<close> tells sentinels from data by
  \<^verbatim>\<open>isinstance\<close> alone, so the model keeps the exception classes the code
  names and their place in Python's hierarchy.  \<open>Derived n b\<close> is any further
  class called \<open>n\<close> whose base is \<open>b\<close> (\<open>ValueError\<close> is
  \<open>Derived ''ValueError'' Exception\<close>).  \<open>EarlyCancellationError\<close> is the class
  of line 22, a direct subclass of \<open>Exception\<close>.
\<close>

datatype exc_class =
    BaseException
  | SystemExit
  | KeyboardInterrupt
  | GeneratorExit
  | Exception
  | StopIteration
  | EarlyCancellationError
  | Derived string exc_class

fun issubclass :: "exc_class \<Rightarrow> exc_class \<Rightarrow> bool" where
  "issubclass BaseException k = (k = BaseException)"
| "issubclass SystemExit k = (k = SystemExit \<or> k = BaseException)"
| "issubclass KeyboardInterrupt k = (k = KeyboardInterrupt \<or> k = BaseException)"
| "issubclass GeneratorExit k = (k = GeneratorExit \<or> k = BaseException)"
| "issubclass Exception k = (k = Exception \<or> k = BaseException)"
| "issubclass StopIteration k = (k = StopIteration \<or> k = Exception \<or> k = BaseException)"
| "issubclass EarlyCancellationError k =
     (k = EarlyCancellationError \<or> k = Exception \<or> k = BaseException)"
| "issubclass (Derived n b) k = (k = Derived n b \<or> issubclass b k)"

text \<open>An exception instance: its class and the text it was built with.\<close>

datatype exn = Exn (cls: exc_class) (args: string)

text \<open>
  A Python object as far as the pipe is concerned: an instance of some exception class,
  or anything else (\<open>Obj\<close>, with the payload left to the generator).
\<close>

datatype 'a pyobj = Obj 'a | Inst exn

fun isinstance :: "'a pyobj \<Rightarrow> exc_class \<Rightarrow> bool" where
  "isinstance (Obj v) k = False"
| "isinstance (Inst e) k = issubclass (cls e) k"

section \<open>The generator\<close>

text \<open>
  What \<^verbatim>\<open>for datum in generator(*args, **kwargs)\<close> can see when it asks for the
  next item: an item and the generator's next state, exhaustion, or an exception
  leaving the \<^verbatim>\<open>for\<close> statement.  A generator is a step function on its own
  state, so it may run forever.  A \<^verbatim>\<open>StopIteration\<close> out of \<^verbatim>\<open>next\<close> is exhaustion;
  one that leaves the \<^verbatim>\<open>for\<close> statement comes from the call
  \<^verbatim>\<open>generator(*args, **kwargs)\<close> itself, before the first item.
\<close>

datatype ('a, 'g) gen_step = Yield "'a pyobj" 'g | Exhausted | Raise exn

type_synonym ('a, 'g) generator = "'g \<Rightarrow> ('a, 'g) gen_step"

text \<open>How a finite generator ends.\<close>

datatype ending = Returns | Raises exn


text \<open>The generator that plays a fixed script; its state is what is left of the script.\<close>

fun script :: "('a, 'a pyobj list \<times> ending) generator" where
  "script (d # ds, e) = Yield d (ds, e)"
| "script ([], Returns) = Exhausted"
| "script ([], Raises x) = Raise x"

section \<open>The pipe\<close>

text \<open>
  \<^verbatim>\<open>mp.Pipe(False)\<close>: a one-way FIFO.  \<open>buffer\<close> holds what was sent and not yet
  received, \<open>sender_closed\<close> says that the sending end is closed, and \<open>sent\<close> is the
  history of everything ever sent (nothing reads it; the theorems about the worker
  speak of it).  Sending never fails and never blocks.
\<close>

record 'a pipe =
  buffer :: "'a pyobj list"
  sender_closed :: bool
  sent :: "'a pyobj list"

definition send :: "'a pyobj \<Rightarrow> 'a pipe \<Rightarrow> 'a pipe" where
  "send d p = p\<lparr>buffer := buffer p @ [d], sent := sent p @ [d]\<rparr>"

definition close :: "'a pipe \<Rightarrow> 'a pipe" where
  "close p = p\<lparr>sender_closed := True\<rparr>"

text \<open>
  \<^verbatim>\<open>poll(0)\<close> is true when a message waits or when the end of the stream can be
  read; \<^verbatim>\<open>recv()\<close> then returns the oldest message, or raises
  \<^verbatim>\<open>EOFError\<close> (\<open>None\<close>) when nothing is left.  \<open>recv\<close> is only called after
  \<open>poll\<close> said yes, so it never has to wait.
\<close>

definition poll :: "'a pipe \<Rightarrow> bool" where
  "poll p = (buffer p \<noteq> [] \<or> sender_closed p)"

definition recv :: "'a pipe \<Rightarrow> ('a pyobj \<times> 'a pipe) option" where
  "recv p = (case buffer p of [] \<Rightarrow> None | d # ds \<Rightarrow> Some (d, p\<lparr>buffer := ds\<rparr>))"

section \<open>The task: proxy, shared flag, pipe and worker\<close>

text \<open>
  The worker process is in its \<^verbatim>\<open>for\<close> loop with the generator in some state, or
  in the \<^verbatim>\<open>finally\<close> clause before \<^verbatim>\<open>pipe.close()\<close>, or gone.  The last
  two carry the exception that \<^verbatim>\<open>except Exception\<close> did not catch, if any.
\<close>

datatype 'g worker = Running 'g | Finishing "exn option" | Exited "exn option"

text \<open>
  \<open>process\<close> is \<^verbatim>\<open>self.process is not None\<close>; \<open>join_calls\<close> counts the calls of
  \<^verbatim>\<open>self.process.join\<close>.
\<close>

record ('a, 'g) task =
  should_terminate_flag :: bool
  completed :: bool
  canceled :: bool
  process :: bool
  join_calls :: nat
  pipe :: "'a pipe"
  worker :: "'g worker"

text \<open>\<^verbatim>\<open>Task_Proxy.__init__\<close>, with the worker started on the generator's first state.\<close>

definition Task_Proxy :: "'g \<Rightarrow> ('a, 'g) task" where
  "Task_Proxy g =
     \<lparr>should_terminate_flag = False, completed = False, canceled = False,
      process = True, join_calls = 0,
      pipe = \<lparr>buffer = [], sender_closed = False, sent = []\<rparr>,
      worker = Running g\<rparr>"

subsection \<open>The worker: \<^verbatim>\<open>_wrapper\<close>\<close>

text \<open>
  One step of the worker.  In the loop it asks the generator for the next item: an item
  is sent on unless the flag is up, in which case \<^verbatim>\<open>EarlyCancellationError\<close> is
  raised and, being an \<^verbatim>\<open>Exception\<close>, sent by the handler; exhaustion sends
  \<^verbatim>\<open>StopIteration()\<close>; an exception of the generator is sent when
  \<^verbatim>\<open>except Exception\<close> catches it and is left to propagate otherwise.  The
  \<^verbatim>\<open>finally\<close> clause closes the pipe, whatever happened.
\<close>

definition wrapper_step :: "('a, 'g) generator \<Rightarrow> ('a, 'g) task \<Rightarrow> ('a, 'g) task" where
  "wrapper_step nxt t =
     (case worker t of
        Running g \<Rightarrow>
          (case nxt g of
             Yield datum g' \<Rightarrow>
               (if should_terminate_flag t
                then t\<lparr>pipe := send (Inst (Exn EarlyCancellationError ''Task was cancelled'')) (pipe t),
                       worker := Finishing None\<rparr>
                else t\<lparr>pipe := send datum (pipe t), worker := Running g'\<rparr>)
           | Raise e \<Rightarrow>
               (if isinstance (Inst e :: 'a pyobj) Exception
                then t\<lparr>pipe := send (Inst e) (pipe t), worker := Finishing None\<rparr>
                else t\<lparr>worker := Finishing (Some e)\<rparr>)
           | Exhausted \<Rightarrow>
               t\<lparr>pipe := send (Inst (Exn StopIteration [])) (pipe t), worker := Finishing None\<rparr>)
      | Finishing r \<Rightarrow> t\<lparr>pipe := close (pipe t), worker := Exited r\<rparr>
      | Exited r \<Rightarrow> t)"

subsection \<open>The caller: \<^verbatim>\<open>fetch\<close>, \<^verbatim>\<open>cancel\<close>, \<^verbatim>\<open>__del__\<close>\<close>

text \<open>
  \<^verbatim>\<open>fetch\<close>, iterated to its end: the items it yielded, the object it raised (if
  any), and the task afterwards.  \<open>fetch_loop\<close> is the \<^verbatim>\<open>while self.pipe.poll(0)\<close>
  loop.
\<close>

function fetch_loop :: "('a, 'g) task \<Rightarrow> 'a pyobj list \<times> 'a pyobj option \<times> ('a, 'g) task" where
  "fetch_loop t =
     (if poll (pipe t) then
        (case recv (pipe t) of
           None \<Rightarrow> ([], None, t\<lparr>canceled := True\<rparr>)
         | Some (datum, p) \<Rightarrow>
             (if isinstance datum StopIteration then ([], None, t\<lparr>pipe := p, completed := True\<rparr>)
              else if isinstance datum EarlyCancellationError
                then ([], None, t\<lparr>pipe := p, canceled := True\<rparr>)
              else if isinstance datum Exception then ([], Some datum, t\<lparr>pipe := p\<rparr>)
              else (case fetch_loop (t\<lparr>pipe := p\<rparr>) of
                      (ys, r, t') \<Rightarrow> (datum # ys, r, t'))))
      else ([], None, t))"
  by pat_completeness auto
termination
  by (relation "measure (\<lambda>t. length (buffer (pipe t)))")
     (auto simp: recv_def split: list.splits)

definition fetch :: "('a, 'g) task \<Rightarrow> 'a pyobj list \<times> 'a pyobj option \<times> ('a, 'g) task" where
  "fetch t = (if completed t \<or> canceled t then ([], None, t) else fetch_loop t)"

text \<open>
  \<^verbatim>\<open>cancel\<close>: the object raised out of it (if any) and the task afterwards.  An
  exception out of the inner \<^verbatim>\<open>fetch\<close> leaves \<^verbatim>\<open>cancel\<close> before the join.
\<close>

definition cancel :: "('a, 'g) task \<Rightarrow> 'a pyobj option \<times> ('a, 'g) task" where
  "cancel t =
     (case (if \<not> (completed t \<or> canceled t)
            then (case fetch (t\<lparr>should_terminate_flag := True\<rparr>) of (ys, r, t') \<Rightarrow> (r, t'))
            else (None, t)) of
        (Some x, t1) \<Rightarrow> (Some x, t1)
      | (None, t1) \<Rightarrow>
          (if process t1
           then (None, t1\<lparr>join_calls := join_calls t1 + 1, process := False\<rparr>)
           else (None, t1)))"

text \<open>\<^verbatim>\<open>__del__\<close>: an exception out of \<^verbatim>\<open>cancel\<close> skips the last assignment.\<close>

definition del :: "('a, 'g) task \<Rightarrow> 'a pyobj option \<times> ('a, 'g) task" where
  "del t =
     (case cancel t of
        (Some x, t1) \<Rightarrow> (Some x, t1)
      | (None, t1) \<Rightarrow> (None, t1\<lparr>process := False\<rparr>))"

subsection \<open>Runs\<close>

text \<open>
  Caller and worker run side by side.  A schedule says who moves next; a run returns
  what each move showed the caller, and the task at the end.  A call of the caller is
  one move: a message that arrives while \<^verbatim>\<open>fetch\<close> is draining counts as sent
  before the call when that call received it and after the call otherwise, and the
  caller iterates \<^verbatim>\<open>fetch\<close> to its end, as \<^verbatim>\<open>cancel\<close> and the demo do.  The
  join in \<^verbatim>\<open>cancel\<close> only waits; what the worker does meanwhile are moves of the
  schedule after the call.
\<close>

datatype action = Work | CallFetch | CallCancel | CallDel

datatype 'a outcome =
    Worked
  | Fetched "'a pyobj list" "'a pyobj option"
  | Cancelled "'a pyobj option"
  | Deleted "'a pyobj option"

fun step :: "('a, 'g) generator \<Rightarrow> action \<Rightarrow> ('a, 'g) task \<Rightarrow> 'a outcome \<times> ('a, 'g) task" where
  "step nxt Work t = (Worked, wrapper_step nxt t)"
| "step nxt CallFetch t = (case fetch t of (ys, r, t') \<Rightarrow> (Fetched ys r, t'))"
| "step nxt CallCancel t = (case cancel t of (r, t') \<Rightarrow> (Cancelled r, t'))"
| "step nxt CallDel t = (case del t of (r, t') \<Rightarrow> (Deleted r, t'))"

fun run :: "('a, 'g) generator \<Rightarrow> ('a, 'g) task \<Rightarrow> action list \<Rightarrow> 'a outcome list \<times> ('a, 'g) task" where
  "run nxt t [] = ([], t)"
| "run nxt t (a # as) =
     (case step nxt a t of
        (out, t') \<Rightarrow> (case run nxt t' as of (outs, t'') \<Rightarrow> (out # outs, t'')))"




section \<open>Example tasks\<close>


text \<open>The scenario of a generator that yields 1, 2, 3 and stops.\<close>

definition three_items :: "(nat, nat pyobj list \<times> ending) task" where
  "three_items = Task_Proxy ([Obj 1, Obj 2, Obj 3], Returns)"

text \<open>The same task once the worker is gone and one \<^verbatim>\<open>fetch\<close> has drained the pipe.\<close>

definition three_items_done :: "(nat, nat pyobj list \<times> ending) task" where
  "three_items_done = snd (run script three_items [Work, Work, Work, Work, Work, CallFetch])"

text \<open>A generator that yields one item and then fails with a \<^verbatim>\<open>ValueError\<close>.\<close>

definition ValueError :: exc_class where
  "ValueError = Derived ''ValueError'' Exception"





text \<open>A generator that yields a \<^verbatim>\<open>StopIteration\<close> object as its second item and fails after the third.\<close>

definition sentinel_as_item :: "(nat, nat pyobj list \<times> ending) task" where
  "sentinel_as_item =
     Task_Proxy ([Obj 1, Inst (Exn StopIteration []), Obj 2], Raises (Exn ValueError ''bad input''))"

text \<open>That task after three steps of the worker: the three items wait in the pipe.\<close>

definition stop_item_waiting :: "(nat, nat pyobj list \<times> ending) task" where
  "stop_item_waiting = snd (run script sentinel_as_item [Work, Work, Work])"

text \<open>A task cancelled after its first item, once the worker has seen the flag and gone.\<close>

definition cancellation_waiting :: "(nat, nat pyobj list \<times> ending) task" where
  "cancellation_waiting = snd (run script three_items [Work, CallCancel, Work, Work])"



section \<open>Invariants for the proofs about finite generators\<close>







section \<open>Classes and instances\<close>

lemma issubclass_Stop_Exc: "issubclass c StopIteration \<Longrightarrow> issubclass c Exception"
  by (induction c) auto

lemma issubclass_Early_Exc: "issubclass c EarlyCancellationError \<Longrightarrow> issubclass c Exception"
  by (induction c) auto

lemma issubclass_Stop_not_Early: "issubclass c StopIteration \<Longrightarrow> \<not> issubclass c EarlyCancellationError"
  by (induction c) auto

lemma isinstance_Stop_Exc: "isinstance d StopIteration \<Longrightarrow> isinstance d Exception"
  by (cases d) (auto dest: issubclass_Stop_Exc)

lemma isinstance_Early_Exc: "isinstance d EarlyCancellationError \<Longrightarrow> isinstance d Exception"
  by (cases d) (auto dest: issubclass_Early_Exc)

lemma isinstance_Stop_not_Early: "isinstance d StopIteration \<Longrightarrow> \<not> isinstance d EarlyCancellationError"
  by (cases d) (auto dest: issubclass_Stop_not_Early)

section \<open>The loop of fetch\<close>

text \<open>
  The loop's defining equation would rewrite for ever, so it is used by hand: once for
  an empty pipe, once for a pipe with a first message.
\<close>

declare fetch_loop.simps [simp del]

lemma fetch_loop_Nil:
  "buffer (pipe t) = [] \<Longrightarrow>
   fetch_loop t = (if sender_closed (pipe t) then ([], None, t\<lparr>canceled := True\<rparr>) else ([], None, t))"
  by (subst fetch_loop.simps) (simp add: poll_def recv_def)

lemma fetch_loop_Cons:
  "buffer (pipe t) = d # ds \<Longrightarrow>
   fetch_loop t =
     (if isinstance d StopIteration then ([], None, t\<lparr>pipe := (pipe t)\<lparr>buffer := ds\<rparr>, completed := True\<rparr>)
      else if isinstance d EarlyCancellationError
        then ([], None, t\<lparr>pipe := (pipe t)\<lparr>buffer := ds\<rparr>, canceled := True\<rparr>)
      else if isinstance d Exception then ([], Some d, t\<lparr>pipe := (pipe t)\<lparr>buffer := ds\<rparr>\<rparr>)
      else (case fetch_loop (t\<lparr>pipe := (pipe t)\<lparr>buffer := ds\<rparr>\<rparr>) of
              (ys, r, t') \<Rightarrow> (d # ys, r, t')))"
  by (subst fetch_loop.simps) (simp add: poll_def recv_def)

lemma fetch_loop_items:
  "buffer (pipe t) = items @ rest \<Longrightarrow> \<forall>d\<in>set items. \<not> isinstance d Exception \<Longrightarrow>
   fetch_loop t =
     (case fetch_loop (t\<lparr>pipe := (pipe t)\<lparr>buffer := rest\<rparr>\<rparr>) of
        (ys, r, t') \<Rightarrow> (items @ ys, r, t'))"
proof (induction items arbitrary: t)
  case Nil
  then have "t\<lparr>pipe := (pipe t)\<lparr>buffer := rest\<rparr>\<rparr> = t" by simp
  then show ?case by simp
next
  case (Cons d items)
  let ?t = "t\<lparr>pipe := (pipe t)\<lparr>buffer := items @ rest\<rparr>\<rparr>"
  from Cons.prems have d: "\<not> isinstance d Exception" by simp
  then have d': "\<not> isinstance d StopIteration" "\<not> isinstance d EarlyCancellationError"
    using isinstance_Stop_Exc isinstance_Early_Exc by blast+
  have "fetch_loop t = (case fetch_loop ?t of (ys, r, t') \<Rightarrow> (d # ys, r, t'))"
    using Cons.prems(1) d d' by (simp add: fetch_loop_Cons)
  moreover have "fetch_loop ?t =
     (case fetch_loop (?t\<lparr>pipe := (pipe ?t)\<lparr>buffer := rest\<rparr>\<rparr>) of
        (ys, r, t') \<Rightarrow> (items @ ys, r, t'))"
    using Cons.prems(2) by (intro Cons.IH) simp_all
  ultimately show ?case by (simp split: prod.splits)
qed


section \<open>What one call of fetch does\<close>

lemma fetch_items_then:
  assumes "\<not> completed t" "\<not> canceled t" "buffer (pipe t) = items @ rest"
    "\<forall>d\<in>set items. \<not> isinstance d Exception"
  shows "fetch t =
     (case fetch_loop (t\<lparr>pipe := (pipe t)\<lparr>buffer := rest\<rparr>\<rparr>) of
        (ys, r, t') \<Rightarrow> (items @ ys, r, t'))"
  using assms by (simp add: fetch_def fetch_loop_items)

lemma fetch_Completed:
  assumes "\<not> completed t" "\<not> canceled t" "buffer (pipe t) = items @ m # rest"
    "\<forall>d\<in>set items. \<not> isinstance d Exception" "isinstance m StopIteration"
  shows "fetch t = (items, None, t\<lparr>pipe := (pipe t)\<lparr>buffer := rest\<rparr>, completed := True\<rparr>)"
  using assms by (simp add: fetch_items_then fetch_loop_Cons)

lemma fetch_Cancelled:
  assumes "\<not> completed t" "\<not> canceled t" "buffer (pipe t) = items @ m # rest"
    "\<forall>d\<in>set items. \<not> isinstance d Exception" "isinstance m EarlyCancellationError"
  shows "fetch t = (items, None, t\<lparr>pipe := (pipe t)\<lparr>buffer := rest\<rparr>, canceled := True\<rparr>)"
  using assms isinstance_Stop_not_Early[of m] by (auto simp add: fetch_items_then fetch_loop_Cons)






section \<open>Frame conditions\<close>

text \<open>
  The loop in closed form: the items up to the first \<open>Exception\<close> instance are yielded,
  and that instance, or the end of the buffer, decides the rest.
\<close>

lemma fetch_loop_closed_form:
  "fetch_loop t =
     (let b = buffer (pipe t); items = takeWhile (\<lambda>d. \<not> isinstance d Exception) b in
      case dropWhile (\<lambda>d. \<not> isinstance d Exception) b of
        [] \<Rightarrow> (items, None,
                if sender_closed (pipe t) then t\<lparr>pipe := (pipe t)\<lparr>buffer := []\<rparr>, canceled := True\<rparr>
                else t\<lparr>pipe := (pipe t)\<lparr>buffer := []\<rparr>\<rparr>)
      | m # rest \<Rightarrow>
          if isinstance m StopIteration
            then (items, None, t\<lparr>pipe := (pipe t)\<lparr>buffer := rest\<rparr>, completed := True\<rparr>)
          else if isinstance m EarlyCancellationError
            then (items, None, t\<lparr>pipe := (pipe t)\<lparr>buffer := rest\<rparr>, canceled := True\<rparr>)
          else (items, Some m, t\<lparr>pipe := (pipe t)\<lparr>buffer := rest\<rparr>\<rparr>))"
proof -
  let ?P = "\<lambda>d::'a pyobj. \<not> isinstance d Exception"
  let ?b = "buffer (pipe t)"
  have split: "?b = takeWhile ?P ?b @ dropWhile ?P ?b" by simp
  have data: "\<forall>d\<in>set (takeWhile ?P ?b). \<not> isinstance d Exception"
    by (auto dest: set_takeWhileD)
  have step: "fetch_loop t =
     (case fetch_loop (t\<lparr>pipe := (pipe t)\<lparr>buffer := dropWhile ?P ?b\<rparr>\<rparr>) of
        (ys, r, t') \<Rightarrow> (takeWhile ?P ?b @ ys, r, t'))"
    by (rule fetch_loop_items[OF split data])
  show ?thesis
  proof (cases "dropWhile ?P ?b")
    case Nil
    have L: "fetch_loop (t\<lparr>pipe := (pipe t)\<lparr>buffer := []\<rparr>\<rparr>) =
       (if sender_closed (pipe t)
        then ([], None, t\<lparr>pipe := (pipe t)\<lparr>buffer := []\<rparr>, canceled := True\<rparr>)
        else ([], None, t\<lparr>pipe := (pipe t)\<lparr>buffer := []\<rparr>\<rparr>))"
      by (simp add: fetch_loop_Nil)
    show ?thesis
      by (subst step, simp only: Nil Let_def list.case L) simp
  next
    case (Cons m rest)
    then have "isinstance m Exception"
      by (simp add: dropWhile_eq_Cons_conv)
    then have L: "fetch_loop (t\<lparr>pipe := (pipe t)\<lparr>buffer := m # rest\<rparr>\<rparr>) =
       (if isinstance m StopIteration
          then ([], None, t\<lparr>pipe := (pipe t)\<lparr>buffer := rest\<rparr>, completed := True\<rparr>)
        else if isinstance m EarlyCancellationError
          then ([], None, t\<lparr>pipe := (pipe t)\<lparr>buffer := rest\<rparr>, canceled := True\<rparr>)
        else ([], Some m, t\<lparr>pipe := (pipe t)\<lparr>buffer := rest\<rparr>\<rparr>))"
      by (simp add: fetch_loop_Cons)
    show ?thesis
      by (subst step, simp only: Cons Let_def list.case L) simp
  qed
qed

lemma fetch_frame:
  assumes "fetch t = (ys, r, t')"
  shows "should_terminate_flag t' = should_terminate_flag t \<and> process t' = process t \<and>
         join_calls t' = join_calls t \<and> worker t' = worker t \<and>
         sent (pipe t') = sent (pipe t) \<and> sender_closed (pipe t') = sender_closed (pipe t)"
  using assms
  by (auto simp: fetch_def fetch_loop_closed_form Let_def split: if_splits list.splits)


lemma cancel_frame:
  assumes "cancel t = (r, t')"
  shows "(should_terminate_flag t \<longrightarrow> should_terminate_flag t') \<and> worker t' = worker t \<and>
         sent (pipe t') = sent (pipe t) \<and> sender_closed (pipe t') = sender_closed (pipe t)"
proof (cases "completed t \<or> canceled t")
  case True
  with assms show ?thesis by (auto simp: cancel_def split: if_splits)
next
  case False
  obtain ys r1 t1 where f: "fetch (t\<lparr>should_terminate_flag := True\<rparr>) = (ys, r1, t1)"
    by (metis prod_cases3)
  from fetch_frame[OF f] assms False f show ?thesis
    by (auto simp: cancel_def split: if_splits option.splits)
qed


lemma cancel_joins:
  assumes "cancel t = (r, t')" "join_calls t \<le> 1" "process t \<longrightarrow> join_calls t = 0"
  shows "join_calls t' \<le> 1 \<and> (process t' \<longrightarrow> join_calls t' = 0)"
proof (cases "completed t \<or> canceled t")
  case True
  with assms show ?thesis by (auto simp: cancel_def split: if_splits)
next
  case False
  obtain ys r1 t1 where f: "fetch (t\<lparr>should_terminate_flag := True\<rparr>) = (ys, r1, t1)"
    by (metis prod_cases3)
  from fetch_frame[OF f] assms False f show ?thesis
    by (auto simp: cancel_def split: if_splits option.splits)
qed

lemma wrapper_step_frame:
  "completed (wrapper_step nxt t) = completed t \<and> canceled (wrapper_step nxt t) = canceled t \<and>
   process (wrapper_step nxt t) = process t \<and> join_calls (wrapper_step nxt t) = join_calls t \<and>
   should_terminate_flag (wrapper_step nxt t) = should_terminate_flag t"
  by (simp add: wrapper_step_def split: worker.splits gen_step.splits)

section \<open>Steps and runs\<close>

lemma del_frame:
  assumes "del t = (r, t')"
  shows "(should_terminate_flag t \<longrightarrow> should_terminate_flag t') \<and> worker t' = worker t \<and>
         sent (pipe t') = sent (pipe t) \<and> sender_closed (pipe t') = sender_closed (pipe t)"
proof -
  obtain r1 t1 where c: "cancel t = (r1, t1)" by (metis surj_pair)
  from cancel_frame[OF c] assms c show ?thesis
    by (auto simp: del_def split: option.splits)
qed


lemma del_joins:
  assumes "del t = (r, t')" "join_calls t \<le> 1" "process t \<longrightarrow> join_calls t = 0"
  shows "join_calls t' \<le> 1 \<and> (process t' \<longrightarrow> join_calls t' = 0)"
proof -
  obtain r1 t1 where c: "cancel t = (r1, t1)" by (metis surj_pair)
  from cancel_joins[OF c assms(2,3)] assms(1) c show ?thesis
    by (auto simp: del_def split: option.splits)
qed

lemma step_flag:
  assumes "should_terminate_flag t"
  shows "should_terminate_flag (snd (step nxt a t))"
proof (cases a)
  case Work
  with assms show ?thesis by (simp add: wrapper_step_frame)
next
  case CallFetch
  obtain ys r t' where f: "fetch t = (ys, r, t')" by (metis prod_cases3)
  with CallFetch fetch_frame[OF f] assms show ?thesis by simp
next
  case CallCancel
  obtain r t' where c: "cancel t = (r, t')" by (metis surj_pair)
  with CallCancel cancel_frame[OF c] assms show ?thesis by simp
next
  case CallDel
  obtain r t' where c: "del t = (r, t')" by (metis surj_pair)
  with CallDel del_frame[OF c] assms show ?thesis by simp
qed


lemma step_joins:
  assumes "join_calls t \<le> 1" "process t \<longrightarrow> join_calls t = 0"
  shows "join_calls (snd (step nxt a t)) \<le> 1 \<and>
         (process (snd (step nxt a t)) \<longrightarrow> join_calls (snd (step nxt a t)) = 0)"
proof (cases a)
  case Work
  with assms show ?thesis by (simp add: wrapper_step_frame)
next
  case CallFetch
  obtain ys r t' where f: "fetch t = (ys, r, t')" by (metis prod_cases3)
  with CallFetch fetch_frame[OF f] assms show ?thesis by simp
next
  case CallCancel
  obtain r t' where c: "cancel t = (r, t')" by (metis surj_pair)
  with CallCancel cancel_joins[OF c assms] show ?thesis by simp
next
  case CallDel
  obtain r t' where c: "del t = (r, t')" by (metis surj_pair)
  with CallDel del_joins[OF c assms] show ?thesis by simp
qed

lemma run_Cons_snd: "snd (run nxt t (a # as)) = snd (run nxt (snd (step nxt a t)) as)"
  by (simp split: prod.splits)



lemma run_invariant:
  assumes "\<And>a t. a \<in> A \<Longrightarrow> P t \<Longrightarrow> P (snd (step nxt a t))" "P t" "set as \<subseteq> A"
  shows "P (snd (run nxt t as))"
  using assms(2,3)
proof (induction as arbitrary: t)
  case Nil
  then show ?case by simp
next
  case (Cons a as)
  from Cons.prems have "P (snd (step nxt a t))" by (intro assms(1)) auto
  with Cons show ?case by (simp add: run_Cons_snd del: run.simps)
qed



section \<open>Invariants of every run\<close>

lemmas run_defs = Task_Proxy_def wrapper_step_def send_def close_def fetch_def
  fetch_loop_closed_form Let_def cancel_def del_def

lemma three_items_done_eq:
  "three_items_done =
     \<lparr>should_terminate_flag = False, completed = True, canceled = False,
      process = True, join_calls = 0,
      pipe = \<lparr>buffer = [], sender_closed = True,
              sent = [Obj 1, Obj 2, Obj 3, Inst (Exn StopIteration [])]\<rparr>,
      worker = Exited None\<rparr>"
  by (simp add: three_items_done_def three_items_def run_defs)

lemma run_flag: "should_terminate_flag t \<Longrightarrow> should_terminate_flag (snd (run nxt t as))"
  by (rule run_invariant[where A = UNIV and P = should_terminate_flag]) (simp_all add: step_flag)




lemma run_joins:
  assumes "join_calls t \<le> 1 \<and> (process t \<longrightarrow> join_calls t = 0)"
  shows "join_calls (snd (run nxt t as)) \<le> 1 \<and>
         (process (snd (run nxt t as)) \<longrightarrow> join_calls (snd (run nxt t as)) = 0)"
proof (rule run_invariant[where A = UNIV
        and P = "\<lambda>t. join_calls t \<le> 1 \<and> (process t \<longrightarrow> join_calls t = 0)"])
  show "\<And>a t. a \<in> UNIV \<Longrightarrow> join_calls t \<le> 1 \<and> (process t \<longrightarrow> join_calls t = 0) \<Longrightarrow>
          join_calls (snd (step nxt a t)) \<le> 1 \<and>
          (process (snd (step nxt a t)) \<longrightarrow> join_calls (snd (step nxt a t)) = 0)"
    using step_joins by blast
qed (use assms in simp_all)

text \<open>
  C9.  The cancellation flag starts false; the worker and \<^verbatim>\<open>fetch\<close> never write it;
  no single move of the caller or of the worker takes it from true to false, so once
  true it stays true along every run.
\<close>

theorem cancellation_flag_monotonic:
  "\<not> should_terminate_flag (Task_Proxy g) \<and>
   should_terminate_flag (wrapper_step nxt t) = should_terminate_flag t \<and>
   should_terminate_flag (snd (snd (fetch t))) = should_terminate_flag t \<and>
   (should_terminate_flag t \<longrightarrow> should_terminate_flag (snd (step nxt a t))) \<and>
   (should_terminate_flag t \<longrightarrow> should_terminate_flag (snd (run nxt t as)))"
proof -
  obtain ys r t' where f: "fetch t = (ys, r, t')" by (metis prod_cases3)
  from fetch_frame[OF f] f
  have "should_terminate_flag (snd (snd (fetch t))) = should_terminate_flag t" by simp
  then show ?thesis
    by (simp add: Task_Proxy_def wrapper_step_frame step_flag run_flag)
qed

theorem cancellation_flag_monotonic_witness:
  "should_terminate_flag (snd (step script CallCancel three_items)) \<and>
   should_terminate_flag
     (snd (step script Work (snd (step script CallCancel three_items)))) \<and>
   should_terminate_flag
     (snd (run script (snd (step script CallCancel three_items)) [Work, CallFetch, Work]))"
proof -
  have h: "should_terminate_flag (snd (step script CallCancel three_items))"
    by (simp add: three_items_def run_defs)
  from h cancellation_flag_monotonic
         [of "([], Returns)" script "snd (step script CallCancel three_items)" Work
             "[Work, CallFetch, Work]"]
  show ?thesis by blast
qed



text \<open>
  C7, as the code has it.  With \<open>completed\<close> or \<open>canceled\<close> already true,
  \<^verbatim>\<open>cancel\<close> raises nothing, does not touch the flag, the pipe or the two status
  flags, and does not fetch; but the join is outside that guard: a proxy that still
  holds its worker joins it once and gives the handle up.  A proxy that has given it up
  is left exactly as it was, so a second \<^verbatim>\<open>cancel\<close> changes nothing, and along any
  run the worker is joined at most once.
\<close>

theorem cancel_after_terminal:
  assumes "completed t \<or> canceled t"
  shows "cancel t =
           (None, if process t then t\<lparr>join_calls := join_calls t + 1, process := False\<rparr> else t) \<and>
         cancel (snd (cancel t)) = (None, snd (cancel t)) \<and>
         join_calls (snd (run nxt (Task_Proxy g) as)) \<le> 1"
proof -
  have c1: "cancel t =
      (None, if process t then t\<lparr>join_calls := join_calls t + 1, process := False\<rparr> else t)"
    using assms by (simp add: cancel_def)
  have "completed (snd (cancel t)) \<or> canceled (snd (cancel t))" "\<not> process (snd (cancel t))"
    using assms by (simp_all add: c1)
  then have c2: "cancel (snd (cancel t)) = (None, snd (cancel t))"
    by (simp add: cancel_def)
  have "join_calls (snd (run nxt (Task_Proxy g) as)) \<le> 1"
    by (rule conjunct1[OF run_joins]) (simp add: Task_Proxy_def)
  with c1 c2 show ?thesis by blast
qed

theorem cancel_after_terminal_witness:
  "completed three_items_done \<and>
   cancel three_items_done =
     (None, three_items_done\<lparr>join_calls := 1, process := False\<rparr>) \<and>
   cancel (snd (cancel three_items_done)) = (None, snd (cancel three_items_done))"
proof -
  have c: "completed three_items_done" by (simp add: three_items_done_eq)
  have p: "process three_items_done" by (simp add: three_items_done_eq)
  have j: "join_calls three_items_done = 0" by (simp add: three_items_done_eq)
  from cancel_after_terminal[of three_items_done script "([], Returns)" "[]"] c
  have a: "cancel three_items_done =
      (None, if process three_items_done
             then three_items_done\<lparr>join_calls := join_calls three_items_done + 1, process := False\<rparr>
             else three_items_done)"
    and b: "cancel (snd (cancel three_items_done)) = (None, snd (cancel three_items_done))"
    by blast+
  have "cancel three_items_done = (None, three_items_done\<lparr>join_calls := 1, process := False\<rparr>)"
    unfolding a using p j by simp
  with c b show ?thesis by blast
qed

theorem cancel_not_noop_counterexample:
  "completed three_items_done \<and>
   process three_items_done \<and>
   snd (cancel three_items_done) \<noteq> three_items_done \<and>
   join_calls (snd (cancel three_items_done)) = join_calls three_items_done + 1"
  by (simp add: three_items_done_eq cancel_def)

section \<open>Runs of finite generators without cancellation\<close>


























section \<open>Generators that return\<close>



section \<open>Generators that fail\<close>












section \<open>Sentinels\<close>

lemma stop_item_waiting_eq:
  "stop_item_waiting =
     \<lparr>should_terminate_flag = False, completed = False, canceled = False,
      process = True, join_calls = 0,
      pipe = \<lparr>buffer = [Obj 1, Inst (Exn StopIteration []), Obj 2], sender_closed = False,
              sent = [Obj 1, Inst (Exn StopIteration []), Obj 2]\<rparr>,
      worker = Running ([], Raises (Exn ValueError ''bad input''))\<rparr>"
  by (simp add: stop_item_waiting_def sentinel_as_item_def run_defs)

lemma cancellation_waiting_eq:
  "cancellation_waiting =
     \<lparr>should_terminate_flag = True, completed = False, canceled = False,
      process = False, join_calls = 1,
      pipe = \<lparr>buffer = [Inst (Exn EarlyCancellationError ''Task was cancelled'')],
              sender_closed = True,
              sent = [Obj 1, Inst (Exn EarlyCancellationError ''Task was cancelled'')]\<rparr>,
      worker = Exited None\<rparr>"
  by (simp add: cancellation_waiting_def three_items_def run_defs)



text \<open>
  C5.  A \<^verbatim>\<open>fetch\<close> on a proxy that is neither completed nor canceled, with items
  waiting in the pipe and then a message \<open>m\<close>: if \<open>m\<close> is a \<open>StopIteration\<close> instance
  the call yields the items, sets \<open>completed\<close> and returns; if \<open>m\<close> is an
  \<open>EarlyCancellationError\<close> instance it yields the items, sets \<open>canceled\<close> and
  returns.  Either way nothing is raised, nothing else in the task changes, and what
  came after \<open>m\<close> is still in the pipe.
\<close>

theorem fetch_stops_at_sentinel:
  assumes "\<not> completed t" "\<not> canceled t" "buffer (pipe t) = items @ m # rest"
    "\<forall>d\<in>set items. \<not> isinstance d Exception"
  shows "(isinstance m StopIteration \<longrightarrow>
            fetch t = (items, None, t\<lparr>pipe := (pipe t)\<lparr>buffer := rest\<rparr>, completed := True\<rparr>)) \<and>
         (isinstance m EarlyCancellationError \<longrightarrow>
            fetch t = (items, None, t\<lparr>pipe := (pipe t)\<lparr>buffer := rest\<rparr>, canceled := True\<rparr>))"
  using fetch_Completed[OF assms] fetch_Cancelled[OF assms] by blast

theorem fetch_stops_at_sentinel_witness:
  "fetch stop_item_waiting =
     ([Obj 1], None,
      stop_item_waiting\<lparr>pipe := (pipe stop_item_waiting)\<lparr>buffer := [Obj 2]\<rparr>, completed := True\<rparr>) \<and>
   fetch cancellation_waiting =
     ([], None,
      cancellation_waiting\<lparr>pipe := (pipe cancellation_waiting)\<lparr>buffer := []\<rparr>, canceled := True\<rparr>)"
proof -
  have a: "\<not> completed stop_item_waiting" "\<not> canceled stop_item_waiting"
    "buffer (pipe stop_item_waiting) = [Obj 1] @ Inst (Exn StopIteration []) # [Obj 2]"
    "\<forall>d\<in>set [Obj (1::nat)]. \<not> isinstance d Exception"
    "isinstance (Inst (Exn StopIteration []) :: nat pyobj) StopIteration"
    by (simp_all add: stop_item_waiting_eq)
  have b: "\<not> completed cancellation_waiting" "\<not> canceled cancellation_waiting"
    "buffer (pipe cancellation_waiting) =
       [] @ Inst (Exn EarlyCancellationError ''Task was cancelled'') # []"
    "\<forall>d\<in>set ([] :: nat pyobj list). \<not> isinstance d Exception"
    "isinstance (Inst (Exn EarlyCancellationError ''Task was cancelled'') :: nat pyobj)
       EarlyCancellationError"
    by (simp_all add: cancellation_waiting_eq)
  from fetch_stops_at_sentinel[OF a(1-4)] a(5) fetch_stops_at_sentinel[OF b(1-4)] b(5)
  show ?thesis by blast
qed





section \<open>Messages of the worker\<close>








end
